theory Spec2Isabelle
  imports Complex_Main "HOL-Library.Char_ord" "HOL-Library.List_Lexorder" "HOL-Library.AList"
    "HOL-Library.Multiset"
begin

section \<open>Strings\<close>

text \<open>
  JavaScript strings are modelled as \<^typ>\<open>string\<close> (lists of 8-bit characters).  The
  code under study only handles ASCII text (file names, error messages, JSON lines), so
  a code unit is a \<^typ>\<open>char\<close>; characters beyond ASCII are outside the model.
\<close>

text \<open>\<^verbatim>\<open>s.startsWith(p)\<close>\<close>

fun startsWith :: "string \<Rightarrow> string \<Rightarrow> bool" where
  "startsWith s [] = True"
| "startsWith [] (p # ps) = False"
| "startsWith (c # cs) (p # ps) = (c = p \<and> startsWith cs ps)"

text \<open>\<^verbatim>\<open>s.endsWith(p)\<close>\<close>

definition endsWith :: "string \<Rightarrow> string \<Rightarrow> bool" where
  "endsWith s p = startsWith (rev s) (rev p)"

text \<open>\<^verbatim>\<open>s.includes(p)\<close>: some position of \<open>s\<close> starts an occurrence of \<open>p\<close>.\<close>

fun includes_str :: "string \<Rightarrow> string \<Rightarrow> bool" where
  "includes_str [] p = (p = [])"
| "includes_str (c # cs) p = (startsWith (c # cs) p \<or> includes_str cs p)"

text \<open>\<^verbatim>\<open>s.toLowerCase()\<close> on ASCII: each of the letters A..Z becomes the letter a..z at
  the same position of the alphabet; every other character stays.\<close>

definition toLowerCaseChar :: "char \<Rightarrow> char" where
  "toLowerCaseChar c =
     (case map_of (zip ''ABCDEFGHIJKLMNOPQRSTUVWXYZ'' ''abcdefghijklmnopqrstuvwxyz'') c of
        None \<Rightarrow> c
      | Some l \<Rightarrow> l)"

definition toLowerCase :: "string \<Rightarrow> string" where
  "toLowerCase s = map toLowerCaseChar s"

section \<open>Error classification and retry (error-handling module)\<close>

text \<open>
  A thrown \<^verbatim>\<open>Error\<close>: its message, the optional \<^verbatim>\<open>code\<close> and \<^verbatim>\<open>status\<close> properties that
  \<^verbatim>\<open>isErrorRetryable\<close> reads through \<^verbatim>\<open>(error as any)\<close>, and its stack text.  An absent
  property is \<open>None\<close>: it is unequal to every string and fails \<^verbatim>\<open>>= 500\<close>.
\<close>

record Error =
  message :: string
  code :: "string option"
  status :: "int option"
  stack :: string

text \<open>
  A JavaScript number: a finite value, one of the two infinities, or \<^verbatim>\<open>NaN\<close>.  The two
  zeros are not told apart (no operation used here distinguishes them).
\<close>

datatype number = Finite real | PosInfinity | NegInfinity | NaN

text \<open>Rounding to an integer, ties to the even neighbour.\<close>

definition round_even :: "real \<Rightarrow> int" where
  "round_even y =
     (let f = \<lfloor>y\<rfloor>
      in if y - of_int f < 1 / 2 then f
         else if 1 / 2 < y - of_int f then f + 1
         else if even f then f else f + 1)"

definition overflow_bound :: real where
  "overflow_bound = 2 ^ 1024"

text \<open>
  The double nearest to a real (IEEE 754 binary64, round to nearest, ties to even).  In
  the binade \<open>2 ^ e \<le> \<bar>x\<bar> < 2 ^ (e + 1)\<close> doubles are \<open>2 ^ (e - 52)\<close> apart, and below
  \<open>2 ^ - 1022\<close> they keep the spacing of that binade; a result that reaches \<open>2 ^ 1024\<close>
  after rounding overflows to an infinity.
\<close>

definition fl :: "real \<Rightarrow> number" where
  "fl x =
     (if x = 0 then Finite 0
      else
        (let e = max \<lfloor>log 2 \<bar>x\<bar>\<rfloor> (- 1022);
             q = 2 powr real_of_int (e - 52);
             r = q * of_int (round_even (x / q))
         in if overflow_bound \<le> \<bar>r\<bar> then (if 0 < x then PosInfinity else NegInfinity)
            else Finite r))"

text \<open>The sign of a number that is not \<^verbatim>\<open>NaN\<close>.\<close>

fun sign :: "number \<Rightarrow> int" where
  "sign (Finite x) = (if x < 0 then - 1 else if x = 0 then 0 else 1)"
| "sign PosInfinity = 1"
| "sign NegInfinity = - 1"
| "sign NaN = 0"

text \<open>
  The operator \<^verbatim>\<open>*\<close>: \<^verbatim>\<open>NaN\<close> when an operand is \<^verbatim>\<open>NaN\<close> or when an infinity meets
  zero, an infinity of the product's sign when an operand is infinite, the rounded
  product otherwise.
\<close>

fun js_mul :: "number \<Rightarrow> number \<Rightarrow> number" where
  "js_mul NaN b = NaN"
| "js_mul a NaN = NaN"
| "js_mul (Finite x) (Finite y) = fl (x * y)"
| "js_mul a b =
     (if sign a * sign b = 0 then NaN
      else if 0 < sign a * sign b then PosInfinity else NegInfinity)"

text \<open>
  \<^verbatim>\<open>Math.pow(base, n)\<close> for an exponent that is a natural number (here \<^verbatim>\<open>attempt - 1\<close>):
  1 for the exponent 0 whatever the base, and otherwise \<^verbatim>\<open>NaN\<close> for \<^verbatim>\<open>NaN\<close>, an
  infinity for an infinity, and the power rounded to a double for a finite base.  (The
  language leaves the last bit of \<^verbatim>\<open>Math.pow\<close> to the implementation where the power is
  not a double; it is taken as correctly rounded.)
\<close>

definition Math_pow :: "number \<Rightarrow> nat \<Rightarrow> number" where
  "Math_pow base n =
     (if n = 0 then Finite 1
      else (case base of
              Finite x \<Rightarrow> fl (x ^ n)
            | PosInfinity \<Rightarrow> PosInfinity
            | NegInfinity \<Rightarrow> (if odd n then NegInfinity else PosInfinity)
            | NaN \<Rightarrow> NaN))"

text \<open>\<^verbatim>\<open>Math.min(a, b)\<close>: \<^verbatim>\<open>NaN\<close> when an argument is \<^verbatim>\<open>NaN\<close>, else the smaller one.\<close>

fun Math_min :: "number \<Rightarrow> number \<Rightarrow> number" where
  "Math_min NaN b = NaN"
| "Math_min a NaN = NaN"
| "Math_min NegInfinity b = NegInfinity"
| "Math_min a NegInfinity = NegInfinity"
| "Math_min PosInfinity b = b"
| "Math_min a PosInfinity = a"
| "Math_min (Finite x) (Finite y) = Finite (min x y)"

text \<open>
  \<^verbatim>\<open>interface RetryConfig\<close>.  \<^verbatim>\<open>maxAttempts\<close> counts attempts and is an integer; the delays
  and the multiplier are JavaScript numbers.
\<close>

record RetryConfig =
  maxAttempts :: int
  baseDelay :: number
  maxDelay :: number
  backoffMultiplier :: number
  retryableErrors :: "string list option"

text \<open>
  \<^verbatim>\<open>function isErrorRetryable(error, retryableErrors?)\<close>.  \<^verbatim>\<open>!retryableErrors\<close> holds
  for an absent list only (an empty array is truthy); \<^verbatim>\<open>Array.some\<close> is \<^const>\<open>list_ex\<close>.
\<close>

definition isErrorRetryable :: "Error \<Rightarrow> string list option \<Rightarrow> bool" where
  "isErrorRetryable error patterns =
     (case patterns of
        None \<Rightarrow>
          includes_str (message error) ''timeout'' \<or>
          includes_str (message error) ''network'' \<or>
          includes_str (message error) ''ECONNRESET'' \<or>
          includes_str (message error) ''ENOTFOUND'' \<or>
          code error = Some ''ECONNRESET'' \<or>
          code error = Some ''ETIMEDOUT'' \<or>
          (case status error of None \<Rightarrow> False | Some s \<Rightarrow> 500 \<le> s)
      | Some ps \<Rightarrow>
          list_ex (\<lambda>pattern.
              includes_str (toLowerCase (message error)) (toLowerCase pattern) \<or>
              code error = Some pattern) ps)"

datatype LogLevel = ERROR | WARN | INFO | DEBUG

text \<open>How a call of \<^verbatim>\<open>withRetry\<close> ends: the promise resolves, or rejects with the last
  error (with \<^verbatim>\<open>undefined\<close> when \<^verbatim>\<open>lastError\<close> was never assigned).\<close>

datatype 'a outcome = Returned 'a | Threw Error | ThrewUndefined

text \<open>
  The local variables of \<^verbatim>\<open>withRetry\<close> (\<^verbatim>\<open>lastError\<close>, \<^verbatim>\<open>attempt\<close>) together with the
  effects performed so far: how often the operation was invoked, the delays passed to
  \<^verbatim>\<open>sleep\<close> in order, and the log calls made.
\<close>

record retry_state =
  lastError :: "Error option"
  attempt :: nat
  invocations :: nat
  slept :: "number list"
  logged :: "(LogLevel \<times> string) list"

record 'a retry_run =
  outcome :: "'a outcome"
  calls :: nat
  delays :: "number list"
  log_calls :: "(LogLevel \<times> string) list"

text \<open>
  The \<^verbatim>\<open>while (attempt < config.maxAttempts)\<close> loop.  The operation is a closure whose
  successive invocations may differ; \<open>operation k\<close> is the outcome of the invocation
  made after \<open>k\<close> earlier ones (\<open>Inl\<close> a rejection, \<open>Inr\<close> a result).
\<close>

function withRetry_loop ::
  "(nat \<Rightarrow> Error + 'a) \<Rightarrow> RetryConfig \<Rightarrow> retry_state \<Rightarrow> 'a retry_run" where
  "withRetry_loop operation config st =
     (if int (attempt st) < maxAttempts config then
        (case operation (invocations st) of
           Inr result \<Rightarrow>
             \<lparr>outcome = Returned result, calls = Suc (invocations st), delays = slept st,
              log_calls = logged st @
                (if 0 < attempt st then [(INFO, ''Operation succeeded after retry'')] else [])\<rparr>
         | Inl error \<Rightarrow>
             (let attempt' = Suc (attempt st);
                  isRetryable = isErrorRetryable error (retryableErrors config)
              in if \<not> isRetryable \<or> maxAttempts config \<le> int attempt' then
                   \<lparr>outcome = Threw error, calls = Suc (invocations st), delays = slept st,
                    log_calls = logged st @ [(ERROR, ''Operation failed after all retries'')]\<rparr>
                 else
                   (let delay =
                          Math_min
                            (js_mul (baseDelay config)
                               (Math_pow (backoffMultiplier config) (attempt' - 1)))
                            (maxDelay config)
                    in withRetry_loop operation config
                         \<lparr>lastError = Some error, attempt = attempt',
                          invocations = Suc (invocations st), slept = slept st @ [delay],
                          logged = logged st @ [(WARN, ''Operation failed, retrying'')]\<rparr>)))
      else
        \<lparr>outcome = (case lastError st of None \<Rightarrow> ThrewUndefined | Some e \<Rightarrow> Threw e),
         calls = invocations st, delays = slept st, log_calls = logged st\<rparr>)"
  by pat_completeness auto
termination
  by (relation "measure (\<lambda>(operation, config, st). nat (maxAttempts config - int (attempt st)))")
     auto

declare withRetry_loop.simps [simp del]

text \<open>\<^verbatim>\<open>let lastError: Error; let attempt = 0\<close>, then the loop.\<close>

definition withRetry :: "(nat \<Rightarrow> Error + 'a) \<Rightarrow> RetryConfig \<Rightarrow> 'a retry_run" where
  "withRetry operation config =
     withRetry_loop operation config
       \<lparr>lastError = None, attempt = 0, invocations = 0, slept = [], logged = []\<rparr>"

subsection \<open>Properties of classification and retry\<close>

lemma startsWith_iff: "startsWith s p \<longleftrightarrow> (\<exists>t. s = p @ t)"
  by (induction s p rule: startsWith.induct) auto

lemma includes_str_iff: "includes_str s p \<longleftrightarrow> (\<exists>a b. s = a @ p @ b)"
proof (induction s)
  case Nil
  show ?case by auto
next
  case (Cons c cs)
  show ?case
  proof
    assume "includes_str (c # cs) p"
    then consider "startsWith (c # cs) p" | "includes_str cs p" by auto
    then show "\<exists>a b. c # cs = a @ p @ b"
    proof cases
      case 1
      then obtain t where "c # cs = p @ t" by (auto simp: startsWith_iff)
      then have "c # cs = [] @ p @ t" by simp
      then show ?thesis by blast
    next
      case 2
      then obtain a b where "cs = a @ p @ b" using Cons.IH by auto
      then have "c # cs = (c # a) @ p @ b" by simp
      then show ?thesis by blast
    qed
  next
    assume "\<exists>a b. c # cs = a @ p @ b"
    then obtain a b where ab: "c # cs = a @ p @ b" by auto
    show "includes_str (c # cs) p"
    proof (cases a)
      case Nil
      with ab have "startsWith (c # cs) p" by (auto simp: startsWith_iff)
      then show ?thesis by simp
    next
      case (Cons x a')
      with ab have "cs = a' @ p @ b" by simp
      then have "includes_str cs p" using Cons.IH by auto
      then show ?thesis by simp
    qed
  qed
qed

lemma includes_str_map_iff:
  "includes_str (map f m) (map f p) \<longleftrightarrow> (\<exists>a b c. m = a @ b @ c \<and> map f b = map f p)"
proof
  assume "includes_str (map f m) (map f p)"
  then obtain x y where "map f m = x @ (map f p @ y)" by (auto simp: includes_str_iff)
  then have "\<exists>a r. m = a @ r \<and> map f r = map f p @ y"
    by (metis map_eq_append_conv)
  then obtain a r where m: "m = a @ r" and r: "map f r = map f p @ y" by blast
  from r have "\<exists>b c. r = b @ c \<and> map f b = map f p"
    by (metis map_eq_append_conv)
  then obtain b c where "r = b @ c" and "map f b = map f p" by blast
  with m show "\<exists>a b c. m = a @ b @ c \<and> map f b = map f p" by blast
next
  assume "\<exists>a b c. m = a @ b @ c \<and> map f b = map f p"
  then obtain a b c where "m = a @ b @ c" and "map f b = map f p" by auto
  then have "map f m = map f a @ map f p @ map f c" by simp
  then show "includes_str (map f m) (map f p)" unfolding includes_str_iff by blast
qed

text \<open>
  Claim C3.  With an explicit pattern list, an error is retryable exactly when some
  pattern occurs in its message up to letter case (a stretch \<open>b\<close> of the message has the
  same lower-casing as the pattern) or equals its code; without a list, exactly when
  the message contains \<^verbatim>\<open>timeout\<close>, \<^verbatim>\<open>network\<close>, \<^verbatim>\<open>ECONNRESET\<close> or \<^verbatim>\<open>ENOTFOUND\<close>, or the
  code is \<^verbatim>\<open>ECONNRESET\<close> or \<^verbatim>\<open>ETIMEDOUT\<close>, or a numeric status of at least 500 is attached.
\<close>

theorem isErrorRetryable_classification:
  "(isErrorRetryable e (Some ps) \<longleftrightarrow>
      (\<exists>p \<in> set ps.
          (\<exists>a b c. message e = a @ b @ c \<and> toLowerCase b = toLowerCase p) \<or> code e = Some p))
   \<and>
   (isErrorRetryable e None \<longleftrightarrow>
      (\<exists>w \<in> {''timeout'', ''network'', ''ECONNRESET'', ''ENOTFOUND''}.
          \<exists>a b. message e = a @ w @ b) \<or>
      code e = Some ''ECONNRESET'' \<or> code e = Some ''ETIMEDOUT'' \<or>
      (\<exists>s. status e = Some s \<and> 500 \<le> s))"
proof
  show "isErrorRetryable e (Some ps) \<longleftrightarrow>
      (\<exists>p \<in> set ps.
          (\<exists>a b c. message e = a @ b @ c \<and> toLowerCase b = toLowerCase p) \<or> code e = Some p)"
    unfolding isErrorRetryable_def toLowerCase_def
    by (simp add: list_ex_iff includes_str_map_iff)
next
  show "isErrorRetryable e None \<longleftrightarrow>
      (\<exists>w \<in> {''timeout'', ''network'', ''ECONNRESET'', ''ENOTFOUND''}.
          \<exists>a b. message e = a @ w @ b) \<or>
      code e = Some ''ECONNRESET'' \<or> code e = Some ''ETIMEDOUT'' \<or>
      (\<exists>s. status e = Some s \<and> 500 \<le> s)"
    unfolding isErrorRetryable_def
    by (cases "status e") (simp_all add: includes_str_iff)
qed

theorem isErrorRetryable_classification_witness:
  "isErrorRetryable \<lparr>message = ''Gateway Timeout'', code = None, status = None, stack = []\<rparr>
     (Some [''timeout'']) \<and>
   (\<exists>a b c. ''Gateway Timeout'' = a @ b @ c \<and> toLowerCase b = toLowerCase ''timeout'') \<and>
   \<not> isErrorRetryable \<lparr>message = ''Gateway Timeout'', code = None, status = None, stack = []\<rparr>
     None"
proof -
  let ?e = "\<lparr>message = ''Gateway Timeout'', code = None, status = None, stack = []\<rparr>"
  have r: "isErrorRetryable ?e (Some [''timeout''])"
    by (simp add: isErrorRetryable_def toLowerCase_def toLowerCaseChar_def)
  have n: "\<not> isErrorRetryable ?e None"
    by (simp add: isErrorRetryable_def)
  from r isErrorRetryable_classification [of ?e "[''timeout'']"]
  have "\<exists>p \<in> set [''timeout''].
          (\<exists>a b c. message ?e = a @ b @ c \<and> toLowerCase b = toLowerCase p) \<or> code ?e = Some p"
    by blast
  then have "\<exists>a b c. ''Gateway Timeout'' = a @ b @ c \<and> toLowerCase b = toLowerCase ''timeout''"
    by simp
  with r n show ?thesis by blast
qed

lemma withRetry_loop_all_fail:
  assumes "\<forall>k < nat (maxAttempts config).
             \<exists>e. operation k = Inl e \<and> isErrorRetryable e (retryableErrors config)"
    and "int (attempt st) < maxAttempts config"
    and "invocations st = attempt st"
  shows "calls (withRetry_loop operation config st) = nat (maxAttempts config) \<and>
         (\<exists>e. operation (nat (maxAttempts config) - 1) = Inl e \<and>
              outcome (withRetry_loop operation config st) = Threw e)"
  using assms
proof (induction operation config st rule: withRetry_loop.induct)
  case (1 operation config st)
  from "1.prems" have lt: "attempt st < nat (maxAttempts config)" by linarith
  with "1.prems" obtain e where e: "operation (attempt st) = Inl e"
    and re: "isErrorRetryable e (retryableErrors config)" by blast
  show ?case
  proof (cases "maxAttempts config \<le> int (Suc (attempt st))")
    case True
    with "1.prems" have "nat (maxAttempts config) = Suc (attempt st)" by linarith
    with True e re "1.prems" show ?thesis
      by (subst (1 2) withRetry_loop.simps) (simp add: Let_def)
  next
    case False
    let ?st' = "\<lparr>lastError = Some e, attempt = Suc (attempt st),
                 invocations = Suc (invocations st),
                 slept = slept st @ [Math_min (js_mul (baseDelay config) (Math_pow (backoffMultiplier config) (Suc (attempt st) - 1))) (maxDelay config)],
                 logged = logged st @ [(WARN, ''Operation failed, retrying'')]\<rparr>"
    have step: "withRetry_loop operation config st = withRetry_loop operation config ?st'"
      using "1.prems" e re False by (subst withRetry_loop.simps) (simp add: Let_def)
    have "calls (withRetry_loop operation config ?st') = nat (maxAttempts config) \<and>
         (\<exists>e. operation (nat (maxAttempts config) - 1) = Inl e \<and>
              outcome (withRetry_loop operation config ?st') = Threw e)"
      using "1.IH"[of e "Suc (attempt st)" "isErrorRetryable e (retryableErrors config)"
                      "Math_min (js_mul (baseDelay config) (Math_pow (backoffMultiplier config) (Suc (attempt st) - 1))) (maxDelay config)"]
        "1.prems" e re False by simp
    with step show ?thesis by simp
  qed
qed


definition always_timeout :: "nat \<Rightarrow> Error + unit" where
  "always_timeout k = Inl \<lparr>message = ''timeout on try'', code = None, status = Some (int k), stack = []\<rparr>"




definition policy7 :: RetryConfig where
  "policy7 = \<lparr>maxAttempts = 7, baseDelay = Finite 1000, maxDelay = Finite 10000,
              backoffMultiplier = Finite 2,
              retryableErrors = None\<rparr>"



text \<open>Numbers of the shape \<open>m * 2 ^ j\<close> with \<open>\<bar>m\<bar> < 2 ^ 53\<close> are doubles, unless they overflow.\<close>

lemma round_even_of_int: "round_even (of_int z) = z"
  by (simp add: round_even_def)

lemma fl_dyadic:
  assumes x: "x = of_int m * 2 ^ j"
    and m: "\<bar>m\<bar> < 2 ^ 53"
  shows "fl x =
           (if overflow_bound \<le> \<bar>x\<bar> then (if 0 < x then PosInfinity else NegInfinity)
            else Finite x)"
proof (cases "x = 0")
  case True
  then show ?thesis by (simp add: fl_def overflow_bound_def)
next
  case False
  with x have m0: "m \<noteq> 0" by auto
  then have m1: "1 \<le> \<bar>real_of_int m\<bar>" by (simp flip: of_int_abs)
  have absx: "\<bar>x\<bar> = \<bar>real_of_int m\<bar> * 2 ^ j" unfolding x by (simp add: abs_mult)
  have lo: "2 ^ j \<le> \<bar>x\<bar>" unfolding absx using m1 by (simp add: mult_le_cancel_right1)
  have "\<bar>real_of_int m\<bar> < 2 ^ 53"
    using m by (simp flip: of_int_abs add: of_int_less_numeral_power_cancel_iff)
  then have hi: "\<bar>x\<bar> < 2 ^ (53 + j)"
    unfolding absx by (simp add: power_add)
  have xpos: "0 < \<bar>x\<bar>" using False by simp
  define e where "e = \<lfloor>log 2 \<bar>x\<bar>\<rfloor>"
  have "real j \<le> log 2 \<bar>x\<bar>"
    using lo xpos by (simp add: le_log_iff powr_realpow)
  then have e_lo: "int j \<le> e" unfolding e_def by (simp add: le_floor_iff)
  have p53: "(2::real) powr real (53 + j) = 2 ^ (53 + j)"
    by (rule powr_realpow) simp
  have "log 2 \<bar>x\<bar> < real (53 + j) \<longleftrightarrow> \<bar>x\<bar> < 2 powr real (53 + j)"
    using xpos by (intro log_less_iff) simp_all
  then have "log 2 \<bar>x\<bar> < real (53 + j)"
    using hi unfolding p53 by blast
  then have e_hi: "e < int (53 + j)" unfolding e_def by (simp add: floor_less_iff)
  have emax: "max e (- 1022) = e" using e_lo by simp
  define d where "d = nat (int j + 52 - e)"
  have d: "int d = int j + 52 - e" unfolding d_def using e_hi by simp
  define q where "q = 2 powr real_of_int (e - 52)"
  have qpos: "0 < q" unfolding q_def by simp
  have "2 ^ j / q = 2 powr (real j) / 2 powr real_of_int (e - 52)"
    unfolding q_def by (simp add: powr_realpow)
  also have "\<dots> = 2 powr (real j - real_of_int (e - 52))"
    by (simp add: powr_diff)
  also have "real j - real_of_int (e - 52) = real d"
    using d by simp
  also have "2 powr (real d) = 2 ^ d" by (simp add: powr_realpow)
  finally have pw: "2 ^ j / q = 2 ^ d" .
  have "x / q = of_int m * (2 ^ j / q)" unfolding x by simp
  also have "\<dots> = of_int (m * 2 ^ d)" unfolding pw by simp
  finally have quot: "x / q = of_int (m * 2 ^ d)" .
  have r: "q * of_int (round_even (x / q)) = x"
    unfolding quot round_even_of_int unfolding quot [symmetric] using qpos by simp
  have "fl x =
      (if overflow_bound \<le> \<bar>q * of_int (round_even (x / q))\<bar>
       then (if 0 < x then PosInfinity else NegInfinity)
       else Finite (q * of_int (round_even (x / q))))"
    unfolding fl_def Let_def e_def [symmetric] emax q_def
    using False by (simp only: if_False)
  then show ?thesis unfolding r .
qed

lemma fl_int:
  assumes "\<bar>z\<bar> < 2 ^ 53"
  shows "fl (of_int z) = Finite (of_int z)"
proof -
  have "real_of_int z = of_int z * 2 ^ 0" by simp
  from fl_dyadic [OF this assms]
  have "fl (of_int z) =
      (if overflow_bound \<le> \<bar>real_of_int z\<bar>
       then (if 0 < real_of_int z then PosInfinity else NegInfinity)
       else Finite (of_int z))" .
  moreover have "\<bar>real_of_int z\<bar> < 2 ^ 53"
    using assms by (simp flip: of_int_abs add: of_int_less_numeral_power_cancel_iff)
  then have "\<bar>real_of_int z\<bar> < overflow_bound"
    unfolding overflow_bound_def
    using power_strict_increasing [of 53 1024 "2::real"] by simp
  ultimately show ?thesis by simp
qed

lemma withRetry_loop_delays:
  assumes "length (slept st) = attempt st"
    and "invocations st = attempt st"
    and "\<forall>j < length (slept st).
           slept st ! j =
             Math_min (js_mul (baseDelay config) (Math_pow (backoffMultiplier config) j))
               (maxDelay config)"
  shows "(\<forall>j < length (delays (withRetry_loop operation config st)).
            delays (withRetry_loop operation config st) ! j =
              Math_min (js_mul (baseDelay config) (Math_pow (backoffMultiplier config) j))
                (maxDelay config)) \<and>
         (int (attempt st) < maxAttempts config \<longrightarrow>
            calls (withRetry_loop operation config st) =
              Suc (length (delays (withRetry_loop operation config st))))"
  using assms
proof (induction operation config st rule: withRetry_loop.induct)
  case (1 operation config st)
  show ?case
  proof (cases "int (attempt st) < maxAttempts config")
    case False
    with "1.prems" show ?thesis
      by (subst (1 2 3 4) withRetry_loop.simps) simp
  next
    case lt: True
    show ?thesis
    proof (cases "operation (invocations st)")
      case (Inr v)
      with lt "1.prems" show ?thesis
        by (subst (1 2 3 4) withRetry_loop.simps) simp
    next
      case (Inl e)
      show ?thesis
      proof (cases "\<not> isErrorRetryable e (retryableErrors config) \<or>
                    maxAttempts config \<le> int (Suc (attempt st))")
        case True
        with lt Inl "1.prems" show ?thesis
          by (subst (1 2 3 4) withRetry_loop.simps) (auto simp: Let_def)
      next
        case False
        let ?d = "Math_min
                    (js_mul (baseDelay config)
                       (Math_pow (backoffMultiplier config) (Suc (attempt st) - 1)))
                    (maxDelay config)"
        let ?st' = "\<lparr>lastError = Some e, attempt = Suc (attempt st),
                 invocations = Suc (invocations st), slept = slept st @ [?d],
                 logged = logged st @ [(WARN, ''Operation failed, retrying'')]\<rparr>"
        have step: "withRetry_loop operation config st = withRetry_loop operation config ?st'"
          using lt Inl False by (subst withRetry_loop.simps) (simp add: Let_def)
        have inv: "\<forall>j < length (slept ?st').
           slept ?st' ! j =
             Math_min (js_mul (baseDelay config) (Math_pow (backoffMultiplier config) j))
               (maxDelay config)"
          using "1.prems" by (auto simp: nth_append less_Suc_eq)
        have nxt: "int (attempt ?st') < maxAttempts config" using False by simp
        have "(\<forall>j < length (delays (withRetry_loop operation config ?st')).
            delays (withRetry_loop operation config ?st') ! j =
              Math_min (js_mul (baseDelay config) (Math_pow (backoffMultiplier config) j))
                (maxDelay config)) \<and>
         (int (attempt ?st') < maxAttempts config \<longrightarrow>
            calls (withRetry_loop operation config ?st') =
              Suc (length (delays (withRetry_loop operation config ?st'))))"
          using "1.IH"[of e "Suc (attempt st)" "isErrorRetryable e (retryableErrors config)" ?d]
            lt Inl False inv "1.prems" by simp
        with step nxt show ?thesis by simp
      qed
    qed
  qed
qed

lemma withRetry_delay_formula:
  assumes "1 \<le> k" and "k \<le> length (delays (withRetry operation config))"
  shows "delays (withRetry operation config) ! (k - 1) =
           Math_min (js_mul (baseDelay config) (Math_pow (backoffMultiplier config) (k - 1)))
             (maxDelay config)"
proof -
  let ?st0 = "\<lparr>lastError = None, attempt = 0, invocations = 0, slept = [], logged = []\<rparr>"
  have "\<forall>j < length (delays (withRetry_loop operation config ?st0)).
            delays (withRetry_loop operation config ?st0) ! j =
              Math_min (js_mul (baseDelay config) (Math_pow (backoffMultiplier config) j))
                (maxDelay config)"
    using withRetry_loop_delays [of ?st0 config operation] by simp
  moreover from assms have "k - 1 < length (delays (withRetry operation config))" by arith
  ultimately show ?thesis unfolding withRetry_def by blast
qed

lemma withRetry_calls_delays:
  assumes "1 \<le> maxAttempts config"
  shows "calls (withRetry operation config) = Suc (length (delays (withRetry operation config)))"
proof -
  let ?st0 = "\<lparr>lastError = None, attempt = 0, invocations = 0, slept = [], logged = []\<rparr>"
  have "int (attempt ?st0) < maxAttempts config \<longrightarrow>
            calls (withRetry_loop operation config ?st0) =
              Suc (length (delays (withRetry_loop operation config ?st0)))"
    using withRetry_loop_delays [of ?st0 config operation] by simp
  with assms show ?thesis unfolding withRetry_def by simp
qed

lemma preset_delay:
  "min ((1000::real) * 2 ^ j) 10000 = (if j < 4 then 1000 * 2 ^ j else 10000)"
proof (cases "j < 4")
  case True
  then have "j = 0 \<or> j = 1 \<or> j = 2 \<or> j = 3" by arith
  then show ?thesis by auto
next
  case False
  then have "(2::real) ^ 4 \<le> 2 ^ j" by (intro power_increasing) simp_all
  then have "(10000::real) \<le> 1000 * 2 ^ j" by simp
  with False show ?thesis by simp
qed

lemma small_below_overflow:
  assumes "j < 4"
  shows "(2::real) ^ j < overflow_bound" and "(1000::real) * 2 ^ j < overflow_bound"
proof -
  from assms have "(2::real) ^ j \<le> 2 ^ 3" by (intro power_increasing) simp_all
  then have le: "(2::real) ^ j \<le> 8" by simp
  have big: "(8000::real) < overflow_bound" by (simp add: overflow_bound_def)
  from le big show "(2::real) ^ j < overflow_bound" by simp
  from le big show "(1000::real) * 2 ^ j < overflow_bound" by simp
qed

lemma Math_pow_two:
  "Math_pow (Finite 2) j = (if overflow_bound \<le> 2 ^ j then PosInfinity else Finite (2 ^ j))"
proof (cases "j = 0")
  case True
  then show ?thesis by (simp add: Math_pow_def overflow_bound_def)
next
  case False
  have "(2::real) ^ j = of_int 1 * 2 ^ j" by simp
  from fl_dyadic [OF this] have "fl (2 ^ j) =
      (if overflow_bound \<le> \<bar>(2::real) ^ j\<bar> then (if 0 < (2::real) ^ j then PosInfinity else NegInfinity)
       else Finite (2 ^ j))" by simp
  with False show ?thesis by (simp add: Math_pow_def)
qed

lemma fl_thousand:
  "fl (1000 * 2 ^ j) =
     (if overflow_bound \<le> 1000 * 2 ^ j then PosInfinity else Finite (1000 * 2 ^ j))"
proof -
  have "(1000::real) * 2 ^ j = of_int 1000 * 2 ^ j" by simp
  from fl_dyadic [OF this] have "fl (1000 * 2 ^ j) =
      (if overflow_bound \<le> \<bar>(1000::real) * 2 ^ j\<bar>
       then (if 0 < (1000::real) * 2 ^ j then PosInfinity else NegInfinity)
       else Finite (1000 * 2 ^ j))" by simp
  then show ?thesis by (simp add: abs_mult)
qed

lemma preset_delay_doubles:
  "Math_min (js_mul (Finite 1000) (Math_pow (Finite 2) j)) (Finite 10000) =
     Finite (if j < 4 then 1000 * 2 ^ j else 10000)"
proof (cases "overflow_bound \<le> (2::real) ^ j")
  case True
  with small_below_overflow(1) [of j] have "\<not> j < 4" by auto
  with True show ?thesis by (simp add: Math_pow_two)
next
  case pow: False
  show ?thesis
  proof (cases "overflow_bound \<le> (1000::real) * 2 ^ j")
    case True
    with small_below_overflow(2) [of j] have "\<not> j < 4" by auto
    with pow True show ?thesis by (simp add: Math_pow_two fl_thousand)
  next
    case False
    with pow show ?thesis
      by (simp only: Math_pow_two js_mul.simps fl_thousand if_False Math_min.simps preset_delay)
  qed
qed

lemma exact_delay:
  assumes "fl (m ^ j) = Finite (m ^ j)" and "fl (b * m ^ j) = Finite (b * m ^ j)"
  shows "Math_min (js_mul (Finite b) (Math_pow (Finite m) j)) (Finite c) =
           Finite (min (b * m ^ j) c)"
proof -
  have "Math_pow (Finite m) j = Finite (m ^ j)"
    using assms(1) by (cases "j = 0") (simp_all add: Math_pow_def)
  with assms(2) show ?thesis by simp
qed

lemma exact_delay_int:
  assumes "\<bar>mi ^ j\<bar> < 2 ^ 53" and "\<bar>bi * mi ^ j\<bar> < 2 ^ 53"
  shows "Math_min (js_mul (Finite (of_int bi)) (Math_pow (Finite (of_int mi)) j)) (Finite c) =
           Finite (min (of_int bi * of_int mi ^ j) c)"
proof (rule exact_delay)
  show "fl (real_of_int mi ^ j) = Finite (real_of_int mi ^ j)"
    using fl_int [OF assms(1)] by simp
  show "fl (real_of_int bi * real_of_int mi ^ j) = Finite (real_of_int bi * real_of_int mi ^ j)"
    using fl_int [OF assms(2)] by simp
qed

text \<open>
  Claim C4, as amended.  The \<open>k\<close>-th delay of a run (the wait after failed attempt \<open>k\<close>,
  before invocation \<open>k + 1\<close>) is the value of
  \<^verbatim>\<open>Math.min(baseDelay * Math.pow(backoffMultiplier, k - 1), maxDelay)\<close> in double
  arithmetic.  It is \<open>min (baseDelay * backoffMultiplier ^ (k - 1)) maxDelay\<close> exactly
  whenever the three parameters are finite and the power and the product are doubles;
  they are for an integer base and an integer multiplier with
  \<open>\<bar>backoffMultiplier ^ (k - 1)\<bar>\<close> and \<open>\<bar>baseDelay * backoffMultiplier ^ (k - 1)\<bar>\<close> below
  \<open>2 ^ 53\<close>.  One delay separates each pair of consecutive invocations; and for base 1000,
  multiplier 2 and cap 10000 the delays are 1000, 2000, 4000, 8000 and then 10000, for
  every \<open>k\<close>.
\<close>

theorem withRetry_backoff_delays:
  "(\<forall>k. 1 \<le> k \<and> k \<le> length (delays (withRetry operation config)) \<longrightarrow>
       delays (withRetry operation config) ! (k - 1) =
         Math_min (js_mul (baseDelay config) (Math_pow (backoffMultiplier config) (k - 1)))
           (maxDelay config)) \<and>
   (\<forall>k b m c. 1 \<le> k \<and> k \<le> length (delays (withRetry operation config)) \<and>
       baseDelay config = Finite b \<and> backoffMultiplier config = Finite m \<and>
       maxDelay config = Finite c \<and>
       fl (m ^ (k - 1)) = Finite (m ^ (k - 1)) \<and>
       fl (b * m ^ (k - 1)) = Finite (b * m ^ (k - 1)) \<longrightarrow>
       delays (withRetry operation config) ! (k - 1) = Finite (min (b * m ^ (k - 1)) c)) \<and>
   (\<forall>k bi mi c. 1 \<le> k \<and> k \<le> length (delays (withRetry operation config)) \<and>
       baseDelay config = Finite (of_int bi) \<and> backoffMultiplier config = Finite (of_int mi) \<and>
       maxDelay config = Finite c \<and>
       \<bar>mi ^ (k - 1)\<bar> < 2 ^ 53 \<and> \<bar>bi * mi ^ (k - 1)\<bar> < 2 ^ 53 \<longrightarrow>
       delays (withRetry operation config) ! (k - 1) =
         Finite (min (of_int bi * of_int mi ^ (k - 1)) c)) \<and>
   (1 \<le> maxAttempts config \<longrightarrow>
       calls (withRetry operation config) = Suc (length (delays (withRetry operation config)))) \<and>
   (baseDelay config = Finite 1000 \<and> backoffMultiplier config = Finite 2 \<and>
    maxDelay config = Finite 10000 \<longrightarrow>
       (\<forall>k. 1 \<le> k \<and> k \<le> length (delays (withRetry operation config)) \<longrightarrow>
          delays (withRetry operation config) ! (k - 1) =
            Finite (if k \<le> 4 then 1000 * 2 ^ (k - 1) else 10000)))"
proof -
  have general: "delays (withRetry operation config) ! (k - 1) =
         Math_min (js_mul (baseDelay config) (Math_pow (backoffMultiplier config) (k - 1)))
           (maxDelay config)"
    if "1 \<le> k \<and> k \<le> length (delays (withRetry operation config))" for k
    using that by (intro withRetry_delay_formula) simp_all
  have exact: "delays (withRetry operation config) ! (k - 1) = Finite (min (b * m ^ (k - 1)) c)"
    if "1 \<le> k \<and> k \<le> length (delays (withRetry operation config)) \<and>
       baseDelay config = Finite b \<and> backoffMultiplier config = Finite m \<and>
       maxDelay config = Finite c \<and>
       fl (m ^ (k - 1)) = Finite (m ^ (k - 1)) \<and>
       fl (b * m ^ (k - 1)) = Finite (b * m ^ (k - 1))" for k b m c
    using general [of k] that exact_delay [of m "k - 1" b c] by simp
  have ints: "delays (withRetry operation config) ! (k - 1) =
         Finite (min (of_int bi * of_int mi ^ (k - 1)) c)"
    if "1 \<le> k \<and> k \<le> length (delays (withRetry operation config)) \<and>
       baseDelay config = Finite (of_int bi) \<and> backoffMultiplier config = Finite (of_int mi) \<and>
       maxDelay config = Finite c \<and>
       \<bar>mi ^ (k - 1)\<bar> < 2 ^ 53 \<and> \<bar>bi * mi ^ (k - 1)\<bar> < 2 ^ 53" for k bi mi c
    using general [of k] that exact_delay_int [of mi "k - 1" bi c] by simp
  have cnt: "calls (withRetry operation config) =
      Suc (length (delays (withRetry operation config)))" if "1 \<le> maxAttempts config"
    using that by (rule withRetry_calls_delays)
  have preset: "delays (withRetry operation config) ! (k - 1) =
            Finite (if k \<le> 4 then 1000 * 2 ^ (k - 1) else 10000)"
    if "baseDelay config = Finite 1000 \<and> backoffMultiplier config = Finite 2 \<and>
        maxDelay config = Finite 10000"
      and "1 \<le> k \<and> k \<le> length (delays (withRetry operation config))" for k
  proof -
    from that(2) have "k - 1 < 4 \<longleftrightarrow> k \<le> 4" by arith
    with general [OF that(2)] that(1) preset_delay_doubles [of "k - 1"] show ?thesis by simp
  qed
  from general exact ints cnt preset show ?thesis by blast
qed

theorem withRetry_backoff_delays_witness:
  "calls (withRetry always_timeout policy7) = 7 \<and>
   length (delays (withRetry always_timeout policy7)) = 6 \<and>
   delays (withRetry always_timeout policy7) ! (1 - 1) = Finite 1000 \<and>
   delays (withRetry always_timeout policy7) ! (2 - 1) = Finite 2000 \<and>
   delays (withRetry always_timeout policy7) ! (3 - 1) = Finite 4000 \<and>
   delays (withRetry always_timeout policy7) ! (4 - 1) = Finite 8000 \<and>
   delays (withRetry always_timeout policy7) ! (5 - 1) = Finite 10000 \<and>
   delays (withRetry always_timeout policy7) ! (6 - 1) = Finite 10000 \<and>
   delays (withRetry always_timeout policy7) ! (3 - 1) =
     Math_min (js_mul (Finite 1000) (Math_pow (Finite 2) (3 - 1))) (Finite 10000) \<and>
   delays (withRetry always_timeout policy7) ! (3 - 1) = Finite (min (1000 * 2 ^ (3 - 1)) 10000) \<and>
   fl (1000 * 2 ^ (2 - 1)) = Finite (1000 * 2 ^ (2 - 1)) \<and>
   delays (withRetry always_timeout policy7) ! (2 - 1) = Finite (min (1000 * 2 ^ (2 - 1)) 10000)"
proof -
  note T = withRetry_backoff_delays [of always_timeout policy7]
  have m: "1 \<le> maxAttempts policy7" by (simp add: policy7_def)
  have b: "\<forall>k < nat (maxAttempts policy7).
           \<exists>e. always_timeout k = Inl e \<and> isErrorRetryable e (retryableErrors policy7)"
    by (simp add: policy7_def always_timeout_def isErrorRetryable_def)
  have n: "nat (maxAttempts policy7) = 7" by (simp add: policy7_def)
  have "calls (withRetry always_timeout policy7) = nat (maxAttempts policy7)"
    unfolding withRetry_def using m b
    by (intro withRetry_loop_all_fail [THEN conjunct1]) simp_all
  with n have C: "calls (withRetry always_timeout policy7) = 7" by simp
  from T m have "calls (withRetry always_timeout policy7) =
          Suc (length (delays (withRetry always_timeout policy7)))" by blast
  with C have L: "length (delays (withRetry always_timeout policy7)) = 6" by simp
  have pre: "baseDelay policy7 = Finite 1000 \<and> backoffMultiplier policy7 = Finite 2 \<and>
             maxDelay policy7 = Finite 10000"
    by (simp add: policy7_def)
  from T pre have P: "\<forall>k. 1 \<le> k \<and> k \<le> length (delays (withRetry always_timeout policy7)) \<longrightarrow>
          delays (withRetry always_timeout policy7) ! (k - 1) =
            Finite (if k \<le> 4 then 1000 * 2 ^ (k - 1) else 10000)"
    by blast
  have D1: "delays (withRetry always_timeout policy7) ! (1 - 1) = Finite 1000"
    using P [rule_format, of 1] L by simp
  have D2: "delays (withRetry always_timeout policy7) ! (2 - 1) = Finite 2000"
    using P [rule_format, of 2] L by simp
  have D3: "delays (withRetry always_timeout policy7) ! (3 - 1) = Finite 4000"
    using P [rule_format, of 3] L by simp
  have D4: "delays (withRetry always_timeout policy7) ! (4 - 1) = Finite 8000"
    using P [rule_format, of 4] L by simp
  have D5: "delays (withRetry always_timeout policy7) ! (5 - 1) = Finite 10000"
    using P [rule_format, of 5] L by simp
  have D6: "delays (withRetry always_timeout policy7) ! (6 - 1) = Finite 10000"
    using P [rule_format, of 6] L by simp
  from T have G: "\<forall>k. 1 \<le> k \<and> k \<le> length (delays (withRetry always_timeout policy7)) \<longrightarrow>
       delays (withRetry always_timeout policy7) ! (k - 1) =
         Math_min (js_mul (baseDelay policy7) (Math_pow (backoffMultiplier policy7) (k - 1)))
           (maxDelay policy7)"
    by blast
  have F: "delays (withRetry always_timeout policy7) ! (3 - 1) =
     Math_min (js_mul (Finite 1000) (Math_pow (Finite 2) (3 - 1))) (Finite 10000)"
    using G [rule_format, of 3] L pre by simp
  from T have I: "\<forall>k bi mi c. 1 \<le> k \<and> k \<le> length (delays (withRetry always_timeout policy7)) \<and>
       baseDelay policy7 = Finite (of_int bi) \<and> backoffMultiplier policy7 = Finite (of_int mi) \<and>
       maxDelay policy7 = Finite c \<and>
       \<bar>mi ^ (k - 1)\<bar> < 2 ^ 53 \<and> \<bar>bi * mi ^ (k - 1)\<bar> < 2 ^ 53 \<longrightarrow>
       delays (withRetry always_timeout policy7) ! (k - 1) =
         Finite (min (of_int bi * of_int mi ^ (k - 1)) c)"
    by blast
  have E: "delays (withRetry always_timeout policy7) ! (3 - 1) =
      Finite (min (1000 * 2 ^ (3 - 1)) 10000)"
    using I [rule_format, of 3 1000 2 10000] L pre by simp
  from T have X: "\<forall>k b m c. 1 \<le> k \<and> k \<le> length (delays (withRetry always_timeout policy7)) \<and>
       baseDelay policy7 = Finite b \<and> backoffMultiplier policy7 = Finite m \<and>
       maxDelay policy7 = Finite c \<and>
       fl (m ^ (k - 1)) = Finite (m ^ (k - 1)) \<and>
       fl (b * m ^ (k - 1)) = Finite (b * m ^ (k - 1)) \<longrightarrow>
       delays (withRetry always_timeout policy7) ! (k - 1) = Finite (min (b * m ^ (k - 1)) c)"
    by blast
  have r1: "fl (2 ^ (2 - 1)) = Finite (2 ^ (2 - 1))" using fl_int [of 2] by simp
  have r2: "fl (1000 * 2 ^ (2 - 1)) = Finite (1000 * 2 ^ (2 - 1))" using fl_int [of 2000] by simp
  have H: "delays (withRetry always_timeout policy7) ! (2 - 1) =
      Finite (min (1000 * 2 ^ (2 - 1)) 10000)"
    using X [rule_format, of 2 1000 2 10000] L pre r1 r2 by simp
  from C L D1 D2 D3 D4 D5 D6 F E r2 H show ?thesis by (intro conjI)
qed

definition huge :: real where
  "huge = 2 ^ 700"

definition zero_base :: RetryConfig where
  "zero_base = \<lparr>maxAttempts = 4, baseDelay = Finite 0, maxDelay = Finite 10000,
                backoffMultiplier = Finite huge, retryableErrors = None\<rparr>"

lemma Math_pow_huge: "Math_pow (Finite huge) 2 = PosInfinity"
proof -
  have sq: "huge ^ 2 = 2 ^ 1400" unfolding huge_def by (simp flip: power_mult)
  then have "huge ^ 2 = of_int 1 * 2 ^ 1400" by simp
  from fl_dyadic [OF this]
  have "fl (huge ^ 2) =
      (if overflow_bound \<le> \<bar>huge ^ 2\<bar> then (if 0 < huge ^ 2 then PosInfinity else NegInfinity)
       else Finite (huge ^ 2))" by simp
  moreover have "overflow_bound \<le> \<bar>huge ^ 2\<bar>"
    unfolding sq overflow_bound_def by simp
  moreover have "0 < huge ^ 2" unfolding sq by simp
  ultimately have "fl (huge ^ 2) = PosInfinity" by simp
  then show ?thesis by (simp add: Math_pow_def)
qed

text \<open>
  Claim C4 as stated fails for some configurations: with base 0 and multiplier \<open>2 ^ 700\<close>
  the power \<^verbatim>\<open>Math.pow(multiplier, 2)\<close> of the third failed attempt overflows to
  \<^verbatim>\<open>Infinity\<close>, \<^verbatim>\<open>0 * Infinity\<close> is \<^verbatim>\<open>NaN\<close>, and so is \<^verbatim>\<open>Math.min(NaN, 10000)\<close>: the
  delay is \<^verbatim>\<open>NaN\<close>, where \<open>min (0 * (2 ^ 700) ^ 2) 10000\<close> is 0.
\<close>

theorem withRetry_delay_of_zero_base_counterexample:
  "calls (withRetry always_timeout zero_base) = 4 \<and>
   3 \<le> length (delays (withRetry always_timeout zero_base)) \<and>
   delays (withRetry always_timeout zero_base) ! (3 - 1) = NaN \<and>
   delays (withRetry always_timeout zero_base) ! (3 - 1) \<noteq>
     Finite (min (0 * huge ^ (3 - 1)) 10000)"
proof -
  have m: "1 \<le> maxAttempts zero_base" by (simp add: zero_base_def)
  have b: "\<forall>k < nat (maxAttempts zero_base).
           \<exists>e. always_timeout k = Inl e \<and> isErrorRetryable e (retryableErrors zero_base)"
    by (simp add: zero_base_def always_timeout_def isErrorRetryable_def)
  have n: "nat (maxAttempts zero_base) = 4" by (simp add: zero_base_def)
  have "calls (withRetry always_timeout zero_base) = nat (maxAttempts zero_base)"
    unfolding withRetry_def using m b
    by (intro withRetry_loop_all_fail [THEN conjunct1]) simp_all
  with n have C: "calls (withRetry always_timeout zero_base) = 4" by simp
  with withRetry_calls_delays [OF m, of always_timeout]
  have L: "length (delays (withRetry always_timeout zero_base)) = 3" by simp
  have "delays (withRetry always_timeout zero_base) ! (3 - 1) =
      Math_min (js_mul (baseDelay zero_base) (Math_pow (backoffMultiplier zero_base) (3 - 1)))
        (maxDelay zero_base)"
    using L by (intro withRetry_delay_formula) simp_all
  also have "\<dots> = Math_min (js_mul (Finite 0) (Math_pow (Finite huge) 2)) (Finite 10000)"
    by (simp add: zero_base_def)
  also have "\<dots> = NaN" unfolding Math_pow_huge by simp
  finally have N: "delays (withRetry always_timeout zero_base) ! (3 - 1) = NaN" .
  from C L N show ?thesis by simp
qed

section \<open>Health checks and uptime (monitoring module)\<close>

subsection \<open>Health checks\<close>

datatype HealthStatus = Healthy | Unhealthy | Degraded

text \<open>
  \<^verbatim>\<open>interface HealthCheck\<close>.  The fields \<^verbatim>\<open>responseTime\<close> and \<^verbatim>\<open>lastChecked\<close> only record
  clock readings and are left out; \<^verbatim>\<open>details\<close> is a list of keys with their texts.
\<close>

record HealthCheck =
  name :: string
  check_status :: HealthStatus
  check_message :: "string option"
  details :: "(string \<times> string) list"

text \<open>\<^verbatim>\<open>interface SystemHealth\<close>, without its clock, version and environment fields.\<close>

record SystemHealth =
  overall :: HealthStatus
  health_checks :: "HealthCheck list"

text \<open>
  What the file operations of one run of \<^verbatim>\<open>checkFileSystem\<close> do: \<^verbatim>\<open>fs.writeFile\<close> and
  \<^verbatim>\<open>fs.unlink\<close> succeed (\<open>None\<close>) or reject with an error, \<^verbatim>\<open>fs.readFile\<close> yields the
  content read back or rejects.
\<close>

record fs_probe =
  writeFile_result :: "Error option"
  readFile_result :: "Error + string"
  unlink_result :: "Error option"

text \<open>The two results of \<^verbatim>\<open>checkFileSystem\<close>: after the \<^verbatim>\<open>try\<close> block, and from \<^verbatim>\<open>catch\<close>.\<close>

definition fs_healthy :: HealthCheck where
  "fs_healthy =
     \<lparr>name = ''File System'', check_status = Healthy,
      check_message = Some ''Read/write operations successful'', details = []\<rparr>"

definition fs_unhealthy :: "Error \<Rightarrow> HealthCheck" where
  "fs_unhealthy error =
     \<lparr>name = ''File System'', check_status = Unhealthy,
      check_message = Some (message error), details = [(''error'', stack error)]\<rparr>"

text \<open>
  \<^verbatim>\<open>HealthChecker.checkFileSystem\<close>.  \<^verbatim>\<open>JSON.parse\<close> is a parameter.  The steps run in the
  order write, read, parse, unlink; the first three reject into the \<^verbatim>\<open>catch\<close> block, the
  rejection of \<^verbatim>\<open>unlink\<close> is dropped by \<^verbatim>\<open>.catch(() => {})\<close> (``Ignore cleanup errors'').
\<close>

definition checkFileSystem :: "(string \<Rightarrow> Error + 'j) \<Rightarrow> fs_probe \<Rightarrow> HealthCheck" where
  "checkFileSystem JSON_parse io =
     (case writeFile_result io of
        Some error \<Rightarrow> fs_unhealthy error
      | None \<Rightarrow>
          (case readFile_result io of
             Inl error \<Rightarrow> fs_unhealthy error
           | Inr content \<Rightarrow>
               (case JSON_parse content of
                  Inl error \<Rightarrow> fs_unhealthy error
                | Inr parsed \<Rightarrow>
                    (case unlink_result io of
                       Some ignored \<Rightarrow> fs_healthy
                     | None \<Rightarrow> fs_healthy))))"

text \<open>\<^verbatim>\<open>Promise.all\<close> over settled probes: all results in order, or a rejection.\<close>

fun Promise_all :: "(Error + 'a) list \<Rightarrow> Error + 'a list" where
  "Promise_all [] = Inr []"
| "Promise_all (p # ps) =
     (case p of
        Inl error \<Rightarrow> Inl error
      | Inr v \<Rightarrow> (case Promise_all ps of Inl error \<Rightarrow> Inl error | Inr vs \<Rightarrow> Inr (v # vs)))"

text \<open>
  \<^verbatim>\<open>HealthChecker.runHealthChecks\<close>, given the settled probe promises in the order of the
  array passed to \<^verbatim>\<open>Promise.all\<close>.  \<^verbatim>\<open>checks.some(...)\<close> is \<^const>\<open>list_ex\<close>.
\<close>

definition runHealthChecks :: "(Error + HealthCheck) list \<Rightarrow> SystemHealth" where
  "runHealthChecks probes =
     (case Promise_all probes of
        Inr checks \<Rightarrow>
          (let hasUnhealthy = list_ex (\<lambda>check. check_status check = Unhealthy) checks;
               hasDegraded = list_ex (\<lambda>check. check_status check = Degraded) checks
           in \<lparr>overall = (if hasUnhealthy then Unhealthy
                          else if hasDegraded then Degraded else Healthy),
               health_checks = checks\<rparr>)
      | Inl error \<Rightarrow>
          \<lparr>overall = Unhealthy,
           health_checks =
             [\<lparr>name = ''Health Check System'', check_status = Unhealthy,
               check_message = Some (message error), details = []\<rparr>]\<rparr>)"

subsection \<open>Uptime monitor\<close>

text \<open>Decimal rendering of a number in a template literal.\<close>

fun string_of_nat :: "nat \<Rightarrow> string" where
  "string_of_nat n =
     (if n < 10 then [''0123456789'' ! n]
      else string_of_nat (n div 10) @ [''0123456789'' ! (n mod 10)])"

declare string_of_nat.simps [simp del]

definition string_of_int :: "int \<Rightarrow> string" where
  "string_of_int i = (if i < 0 then CHR ''-'' # string_of_nat (nat (- i)) else string_of_nat (nat i))"

text \<open>The remainder operator \<^verbatim>\<open>%\<close>: the result has the sign of the dividend.\<close>

definition js_rem :: "int \<Rightarrow> int \<Rightarrow> int" where
  "js_rem a b = sgn a * (\<bar>a\<bar> mod \<bar>b\<bar>)"

text \<open>
  \<^verbatim>\<open>class UptimeMonitor\<close>: the start time in milliseconds, the recorded checks (time stamp
  and outcome, oldest first) and the capacity \<^verbatim>\<open>maxChecks\<close>.
\<close>

record UptimeMonitor =
  startTime :: int
  checks :: "(int \<times> bool) list"
  maxChecks :: nat

definition new_UptimeMonitor :: "int \<Rightarrow> UptimeMonitor" where
  "new_UptimeMonitor now = \<lparr>startTime = now, checks = [], maxChecks = 100\<rparr>"

text \<open>\<^verbatim>\<open>xs.slice(-k)\<close>: the last \<open>k\<close> elements, all of them when there are fewer
  (and for \<open>k = 0\<close>, where \<^verbatim>\<open>-0\<close> is the index 0).\<close>

definition slice_last :: "nat \<Rightarrow> 'a list \<Rightarrow> 'a list" where
  "slice_last k xs = (if k = 0 then xs else drop (length xs - k) xs)"

definition recordCheck :: "int \<Rightarrow> bool \<Rightarrow> UptimeMonitor \<Rightarrow> UptimeMonitor" where
  "recordCheck now isHealthy m =
     (let pushed = checks m @ [(now, isHealthy)]
      in m\<lparr>checks := (if maxChecks m < length pushed then slice_last (maxChecks m) pushed
                       else pushed)\<rparr>)"

definition formatUptime :: "int \<Rightarrow> string" where
  "formatUptime ms =
     (let seconds = ms div 1000;
          minutes = seconds div 60;
          hours = minutes div 60;
          days = hours div 24
      in if 0 < days then
           string_of_int days @ ''d '' @ string_of_int (js_rem hours 24) @ ''h '' @
           string_of_int (js_rem minutes 60) @ ''m''
         else if 0 < hours then
           string_of_int hours @ ''h '' @ string_of_int (js_rem minutes 60) @ ''m''
         else if 0 < minutes then
           string_of_int minutes @ ''m '' @ string_of_int (js_rem seconds 60) @ ''s''
         else string_of_int seconds @ ''s'')"

record UptimeStats =
  uptime :: int
  uptimeFormatted :: string
  availability :: real
  totalChecks :: nat
  recentChecks :: nat
  successfulChecks :: nat

text \<open>
  \<^verbatim>\<open>UptimeMonitor.getStats\<close> at clock reading \<open>now\<close>.  \<^verbatim>\<open>Math.round\<close> is \<^const>\<open>round\<close>
  (\<open>round x = \<lfloor>x + 1/2\<rfloor>\<close>); the arithmetic is exact.
\<close>

definition getStats :: "int \<Rightarrow> UptimeMonitor \<Rightarrow> UptimeStats" where
  "getStats now m =
     (let uptimeMs = now - startTime m;
          recent = slice_last 20 (checks m);
          successful = length (filter (\<lambda>check. snd check) recent);
          avail = (if 0 < length recent
                   then (real successful / real (length recent)) * 100
                   else 100)
      in \<lparr>uptime = uptimeMs,
          uptimeFormatted = formatUptime uptimeMs,
          availability = real_of_int (round (avail * 100)) / 100,
          totalChecks = length (checks m),
          recentChecks = length recent,
          successfulChecks = successful\<rparr>)"

text \<open>The number of space-separated fields of a formatted duration.\<close>

definition shown_units :: "string \<Rightarrow> nat" where
  "shown_units s = Suc (length (filter (\<lambda>c. c = CHR '' '') s))"

subsection \<open>Properties of the health checks and the uptime monitor\<close>

lemma Promise_all_resolved: "Promise_all (map Inr cs) = Inr cs"
  by (induction cs) simp_all

lemma overall_resolved:
  "overall (runHealthChecks (map Inr cs)) =
     (if \<exists>c \<in> set cs. check_status c = Unhealthy then Unhealthy
      else if \<exists>c \<in> set cs. check_status c = Degraded then Degraded else Healthy)"
  by (simp add: runHealthChecks_def Promise_all_resolved list_ex_iff)

text \<open>
  Claim C2.  When every probe produces a result, the overall status is unhealthy if some
  check is unhealthy, else degraded if some check is degraded, else healthy; it is the
  same for every reordering of the checks; and the three sample lists reduce to
  degraded, unhealthy and healthy.
\<close>

theorem runHealthChecks_reduction:
  "overall (runHealthChecks (map Inr cs)) =
     (if \<exists>c \<in> set cs. check_status c = Unhealthy then Unhealthy
      else if \<exists>c \<in> set cs. check_status c = Degraded then Degraded else Healthy) \<and>
   (mset cs' = mset cs \<longrightarrow>
      overall (runHealthChecks (map Inr cs')) = overall (runHealthChecks (map Inr cs))) \<and>
   (map check_status cs = [Healthy, Degraded, Healthy] \<longrightarrow>
      overall (runHealthChecks (map Inr cs)) = Degraded) \<and>
   (map check_status cs = [Healthy, Unhealthy, Degraded] \<longrightarrow>
      overall (runHealthChecks (map Inr cs)) = Unhealthy) \<and>
   ((\<forall>c \<in> set cs. check_status c = Healthy) \<longrightarrow>
      overall (runHealthChecks (map Inr cs)) = Healthy)"
proof (intro conjI impI)
  show "overall (runHealthChecks (map Inr cs)) =
     (if \<exists>c \<in> set cs. check_status c = Unhealthy then Unhealthy
      else if \<exists>c \<in> set cs. check_status c = Degraded then Degraded else Healthy)"
    by (rule overall_resolved)
next
  assume "mset cs' = mset cs"
  then have "set cs' = set cs" by (rule mset_eq_setD)
  then show "overall (runHealthChecks (map Inr cs')) = overall (runHealthChecks (map Inr cs))"
    by (simp add: overall_resolved)
next
  assume a: "map check_status cs = [Healthy, Degraded, Healthy]"
  have "check_status ` set cs = set (map check_status cs)" by simp
  with a have "check_status ` set cs = {Healthy, Degraded}" by auto
  then have "(\<exists>c \<in> set cs. check_status c = Degraded) \<and> \<not> (\<exists>c \<in> set cs. check_status c = Unhealthy)"
    by (metis HealthStatus.distinct(1,3,5) image_iff insert_iff singletonD)
  then show "overall (runHealthChecks (map Inr cs)) = Degraded"
    by (simp add: overall_resolved)
next
  assume a: "map check_status cs = [Healthy, Unhealthy, Degraded]"
  have "check_status ` set cs = set (map check_status cs)" by simp
  with a have "Unhealthy \<in> check_status ` set cs" by auto
  then have "\<exists>c \<in> set cs. check_status c = Unhealthy" by (metis image_iff)
  then show "overall (runHealthChecks (map Inr cs)) = Unhealthy"
    by (simp add: overall_resolved)
next
  assume "\<forall>c \<in> set cs. check_status c = Healthy"
  then show "overall (runHealthChecks (map Inr cs)) = Healthy"
    by (simp add: overall_resolved)
qed

definition probe_result :: "string \<Rightarrow> HealthStatus \<Rightarrow> HealthCheck" where
  "probe_result n s = \<lparr>name = n, check_status = s, check_message = None, details = []\<rparr>"

theorem runHealthChecks_reduction_witness:
  "overall (runHealthChecks (map Inr
      [probe_result ''Environment'' Healthy, probe_result ''File System'' Degraded,
       probe_result ''GitHub API'' Healthy])) = Degraded \<and>
   overall (runHealthChecks (map Inr
      [probe_result ''GitHub API'' Healthy, probe_result ''File System'' Degraded,
       probe_result ''Environment'' Healthy])) = Degraded"
proof -
  let ?cs = "[probe_result ''Environment'' Healthy, probe_result ''File System'' Degraded,
       probe_result ''GitHub API'' Healthy]"
  let ?cs' = "[probe_result ''GitHub API'' Healthy, probe_result ''File System'' Degraded,
       probe_result ''Environment'' Healthy]"
  have a: "map check_status ?cs = [Healthy, Degraded, Healthy]"
    by (simp add: probe_result_def)
  have b: "mset ?cs' = mset ?cs" by (simp add: add.commute)
  from runHealthChecks_reduction [of ?cs ?cs'] a
  have 1: "overall (runHealthChecks (map Inr ?cs)) = Degraded" by blast
  from runHealthChecks_reduction [of ?cs ?cs'] b
  have 2: "overall (runHealthChecks (map Inr ?cs')) = overall (runHealthChecks (map Inr ?cs))"
    by blast
  from 1 2 show ?thesis by simp
qed

text \<open>
  Claim C8, as amended.  The probe is healthy exactly when writing the marker file,
  reading it back and parsing it all succeed; when it is not healthy, it is the
  unhealthy check built from the error of the first of these three steps that failed;
  and the outcome of the final delete never changes the result.
\<close>

theorem checkFileSystem_status:
  "(check_status (checkFileSystem P io) = Healthy \<longleftrightarrow>
      writeFile_result io = None \<and> (\<exists>c v. readFile_result io = Inr c \<and> P c = Inr v)) \<and>
   (check_status (checkFileSystem P io) \<noteq> Healthy \<longrightarrow>
      (\<exists>e. checkFileSystem P io = fs_unhealthy e \<and>
           (writeFile_result io = Some e \<or>
            writeFile_result io = None \<and> readFile_result io = Inl e \<or>
            writeFile_result io = None \<and> (\<exists>c. readFile_result io = Inr c \<and> P c = Inl e)))) \<and>
   checkFileSystem P (io\<lparr>unlink_result := u\<rparr>) = checkFileSystem P io"
  by (auto simp: checkFileSystem_def fs_healthy_def fs_unhealthy_def
      split: option.splits sum.splits)

definition accepts_all :: "string \<Rightarrow> Error + string" where
  "accepts_all content = Inr content"

definition delete_fails :: fs_probe where
  "delete_fails =
     \<lparr>writeFile_result = None, readFile_result = Inr ''{}'',
      unlink_result = Some \<lparr>message = ''EPERM: operation not permitted, unlink'',
                            code = Some ''EPERM'', status = None, stack = []\<rparr>\<rparr>"

text \<open>
  Claim C8 as stated fails: with the write, the read and the parse succeeding and the
  final delete rejecting, the probe still reports healthy.
\<close>

theorem checkFileSystem_delete_counterexample:
  "unlink_result delete_fails \<noteq> None \<and>
   check_status (checkFileSystem accepts_all delete_fails) = Healthy"
  by (simp add: delete_fails_def accepts_all_def checkFileSystem_def fs_healthy_def)

theorem checkFileSystem_status_witness:
  "check_status (checkFileSystem accepts_all delete_fails) = Healthy \<and>
   check_status (checkFileSystem accepts_all (delete_fails\<lparr>writeFile_result :=
       Some \<lparr>message = ''ENOSPC'', code = None, status = None, stack = []\<rparr>\<rparr>)) = Unhealthy"
proof -
  have "writeFile_result delete_fails = None \<and>
        (\<exists>c v. readFile_result delete_fails = Inr c \<and> accepts_all c = Inr v)"
    by (simp add: delete_fails_def accepts_all_def)
  with checkFileSystem_status [of accepts_all delete_fails]
  have "check_status (checkFileSystem accepts_all delete_fails) = Healthy" by blast
  moreover have "check_status (checkFileSystem accepts_all (delete_fails\<lparr>writeFile_result :=
       Some \<lparr>message = ''ENOSPC'', code = None, status = None, stack = []\<rparr>\<rparr>)) = Unhealthy"
    by (simp add: checkFileSystem_def fs_unhealthy_def)
  ultimately show ?thesis by simp
qed

lemma slice_last_recent:
  assumes "0 < k"
  shows "slice_last k xs = rev (take (min k (length xs)) (rev xs))"
proof -
  have "length xs - k = length xs - min k (length xs)" by arith
  with assms show ?thesis by (simp add: slice_last_def take_rev)
qed

lemma recent_counts:
  assumes "0 < k"
  shows "length (slice_last k xs) = min k (length xs)"
    and "length (filter P (slice_last k xs)) =
         length (filter P (take (min k (length xs)) (rev xs)))"
proof -
  show "length (slice_last k xs) = min k (length xs)"
    using assms by (simp add: slice_last_def)
  have "length (filter P (slice_last k xs)) =
        length (filter P (rev (take (min k (length xs)) (rev xs))))"
    by (simp only: slice_last_recent [OF assms])
  also have "\<dots> = length (rev (filter P (take (min k (length xs)) (rev xs))))"
    by (simp only: rev_filter)
  finally show "length (filter P (slice_last k xs)) =
      length (filter P (take (min k (length xs)) (rev xs)))" by simp
qed

lemma js_rem_nonneg: "0 \<le> a \<Longrightarrow> 0 < b \<Longrightarrow> js_rem a b = a mod b"
  by (cases "a = 0") (simp_all add: js_rem_def)

lemma div_chain:
  "(ms::int) div 1000 div 60 = ms div 60000"
  "(ms::int) div 60000 div 60 = ms div 3600000"
  "(ms::int) div 3600000 div 24 = ms div 86400000"
  using zdiv_zmult2_eq [of 60 ms 1000] zdiv_zmult2_eq [of 60 ms 60000]
    zdiv_zmult2_eq [of 24 ms 3600000] by simp_all

lemma div_pos_iff:
  "0 < (ms::int) div 86400000 \<longleftrightarrow> 86400000 \<le> ms"
  "0 < (ms::int) div 3600000 \<longleftrightarrow> 3600000 \<le> ms"
  "0 < (ms::int) div 60000 \<longleftrightarrow> 60000 \<le> ms"
  by (simp_all add: pos_imp_zdiv_pos_iff)

lemma formatUptime_days:
  assumes "86400000 \<le> ms"
  shows "formatUptime ms =
        string_of_int (ms div 86400000) @ ''d '' @ string_of_int (ms div 3600000 mod 24) @ ''h '' @
        string_of_int (ms div 60000 mod 60) @ ''m''"
proof -
  from assms have nn: "0 \<le> ms div 3600000" "0 \<le> ms div 60000"
    by (simp_all add: pos_imp_zdiv_nonneg_iff)
  from assms show ?thesis
    unfolding formatUptime_def Let_def div_chain div_pos_iff
    by (simp add: js_rem_nonneg nn)
qed

lemma formatUptime_hours:
  assumes "3600000 \<le> ms" "ms < 86400000"
  shows "formatUptime ms =
        string_of_int (ms div 3600000) @ ''h '' @ string_of_int (ms div 60000 mod 60) @ ''m''"
proof -
  from assms have nn: "0 \<le> ms div 60000"
    by (simp_all add: pos_imp_zdiv_nonneg_iff)
  from assms show ?thesis
    unfolding formatUptime_def Let_def div_chain div_pos_iff
    by (simp add: js_rem_nonneg nn)
qed

lemma formatUptime_minutes:
  assumes "60000 \<le> ms" "ms < 3600000"
  shows "formatUptime ms =
        string_of_int (ms div 60000) @ ''m '' @ string_of_int (ms div 1000 mod 60) @ ''s''"
proof -
  from assms have nn: "0 \<le> ms div 1000"
    by (simp_all add: pos_imp_zdiv_nonneg_iff)
  from assms show ?thesis
    unfolding formatUptime_def Let_def div_chain div_pos_iff
    by (simp add: js_rem_nonneg nn)
qed

lemma formatUptime_seconds:
  assumes "ms < 60000"
  shows "formatUptime ms = string_of_int (ms div 1000) @ ''s''"
  using assms unfolding formatUptime_def Let_def div_chain div_pos_iff by simp

lemma round_hundredths:
  "\<bar>real_of_int (round (x * 100)) / 100 - x\<bar> \<le> 1 / 200"
proof -
  define r where "r = real_of_int (round (x * 100))"
  have half: "\<bar>r - x * 100\<bar> \<le> 1 / 2"
    unfolding r_def by (rule of_int_round_abs_le)
  have e: "r / 100 - x = (r - x * 100) / 100"
    by (simp add: diff_divide_distrib)
  have "\<bar>r / 100 - x\<bar> = \<bar>(r - x * 100) / 100\<bar>" by (simp only: e)
  also have "\<dots> = \<bar>r - x * 100\<bar> / \<bar>100\<bar>" by (rule abs_divide)
  also have "\<dots> = \<bar>r - x * 100\<bar> / 100" by simp
  finally have "\<bar>r / 100 - x\<bar> = \<bar>r - x * 100\<bar> / 100" .
  with half have "\<bar>r / 100 - x\<bar> \<le> 1 / 200" by linarith
  then show ?thesis unfolding r_def .
qed

lemma getStats_availability:
  assumes "checks m \<noteq> []"
  shows "availability (getStats now m) =
           real_of_int (round (real (length (filter snd (slice_last 20 (checks m)))) /
                               real (length (slice_last 20 (checks m))) * 100 * 100)) / 100"
proof -
  from assms have "0 < length (slice_last 20 (checks m))"
    by (simp add: recent_counts(1))
  then show ?thesis by (simp add: getStats_def Let_def)
qed

text \<open>
  Claim C9, as amended.  For a non-empty ring, with \<open>n = min 20 length\<close> and \<open>t\<close> the number
  of true entries among the \<open>n\<close> most recent checks, the availability is \<open>100 * t / n\<close>
  rounded to hundredths (15 of 20 gives 75).  The formatted uptime shows days, hours and
  minutes from one day on, hours and minutes from one hour on, minutes and seconds from
  one minute on, and seconds alone below that.
\<close>

theorem getStats_availability_and_uptime:
  assumes "checks m \<noteq> []"
    and "n = min 20 (length (checks m))"
    and "t = length (filter snd (take n (rev (checks m))))"
    and "ms = now - startTime m"
  shows "recentChecks (getStats now m) = n \<and>
         successfulChecks (getStats now m) = t \<and>
         availability (getStats now m) = real_of_int (round (100 * real t / real n * 100)) / 100 \<and>
         \<bar>availability (getStats now m) - 100 * real t / real n\<bar> \<le> 1 / 200 \<and>
         (n = 20 \<and> t = 15 \<longrightarrow> availability (getStats now m) = 75) \<and>
         (86400000 \<le> ms \<longrightarrow>
            uptimeFormatted (getStats now m) =
              string_of_int (ms div 86400000) @ ''d '' @
              string_of_int (ms div 3600000 mod 24) @ ''h '' @
              string_of_int (ms div 60000 mod 60) @ ''m'') \<and>
         (3600000 \<le> ms \<and> ms < 86400000 \<longrightarrow>
            uptimeFormatted (getStats now m) =
              string_of_int (ms div 3600000) @ ''h '' @
              string_of_int (ms div 60000 mod 60) @ ''m'') \<and>
         (60000 \<le> ms \<and> ms < 3600000 \<longrightarrow>
            uptimeFormatted (getStats now m) =
              string_of_int (ms div 60000) @ ''m '' @
              string_of_int (ms div 1000 mod 60) @ ''s'') \<and>
         (ms < 60000 \<longrightarrow>
            uptimeFormatted (getStats now m) = string_of_int (ms div 1000) @ ''s'')"
proof -
  have rc: "recentChecks (getStats now m) = n"
    using assms(2) by (simp add: getStats_def Let_def recent_counts(1))
  have sc: "successfulChecks (getStats now m) = t"
    using assms(2,3) by (simp add: getStats_def Let_def recent_counts(2))
  have len: "length (slice_last 20 (checks m)) = n"
    using assms(2) by (simp add: recent_counts(1))
  have cnt: "length (filter snd (slice_last 20 (checks m))) = t"
    using assms(2,3) by (simp add: recent_counts(2))
  have av: "availability (getStats now m) =
      real_of_int (round (100 * real t / real n * 100)) / 100"
    using getStats_availability [OF assms(1), of now] unfolding len cnt
    by (simp add: mult.commute)
  have close: "\<bar>availability (getStats now m) - 100 * real t / real n\<bar> \<le> 1 / 200"
    unfolding av by (rule round_hundredths)
  have ex: "availability (getStats now m) = 75" if "n = 20 \<and> t = 15"
    unfolding av using that by simp
  have fmt: "uptimeFormatted (getStats now m) = formatUptime ms"
    using assms(4) by (simp add: getStats_def Let_def)
  show ?thesis
    unfolding fmt
    using rc sc av close ex
      formatUptime_days [of ms] formatUptime_hours [of ms]
      formatUptime_minutes [of ms] formatUptime_seconds [of ms]
    by blast
qed

definition fifteen_of_twenty :: UptimeMonitor where
  "fifteen_of_twenty =
     \<lparr>startTime = 0, checks = replicate 15 (0, True) @ replicate 5 (0, False), maxChecks = 100\<rparr>"

theorem getStats_availability_and_uptime_witness:
  "availability (getStats 90061000 fifteen_of_twenty) = 75 \<and>
   successfulChecks (getStats 90061000 fifteen_of_twenty) = 15 \<and>
   uptimeFormatted (getStats 90061000 fifteen_of_twenty) = ''1d 1h 1m''"
proof -
  have a: "checks fifteen_of_twenty \<noteq> []" by (simp add: fifteen_of_twenty_def)
  have b: "20 = min 20 (length (checks fifteen_of_twenty))"
    by (simp add: fifteen_of_twenty_def)
  have c: "15 = length (filter snd (take 20 (rev (checks fifteen_of_twenty))))"
    by (simp add: fifteen_of_twenty_def)
  have d: "90061000 = 90061000 - startTime fifteen_of_twenty"
    by (simp add: fifteen_of_twenty_def)
  have e: "string_of_int (90061000 div 86400000) @ ''d '' @
           string_of_int (90061000 div 3600000 mod 24) @ ''h '' @
           string_of_int (90061000 div 60000 mod 60) @ ''m'' = ''1d 1h 1m''"
    by (simp add: string_of_int_def string_of_nat.simps)
  from getStats_availability_and_uptime [OF a b c d] e show ?thesis by simp
qed

text \<open>
  Claim C9 as stated fails on the duration string: an uptime of 1 day, 1 hour, 1 minute
  and 1 second is shown with three units, and one of 5 seconds with a single unit.
\<close>

theorem formatUptime_three_units_counterexample:
  "formatUptime 90061000 = ''1d 1h 1m'' \<and> shown_units (formatUptime 90061000) = 3 \<and>
   formatUptime 5000 = ''5s'' \<and> shown_units (formatUptime 5000) = 1"
  by (simp add: formatUptime_def Let_def string_of_int_def string_of_nat.simps js_rem_def
      shown_units_def)

text \<open>
  Claim C10.  With an empty ring (as in a fresh monitor, before any \<^verbatim>\<open>recordCheck\<close>),
  \<^verbatim>\<open>getStats\<close> reports availability 100 and zero successful, recent and total checks.
\<close>

theorem getStats_empty_ring:
  "availability (getStats now (m\<lparr>checks := []\<rparr>)) = 100 \<and>
   successfulChecks (getStats now (m\<lparr>checks := []\<rparr>)) = 0 \<and>
   recentChecks (getStats now (m\<lparr>checks := []\<rparr>)) = 0 \<and>
   totalChecks (getStats now (m\<lparr>checks := []\<rparr>)) = 0 \<and>
   checks (new_UptimeMonitor start) = []"
  by (simp add: getStats_def Let_def slice_last_def new_UptimeMonitor_def)

theorem getStats_empty_ring_witness:
  "availability (getStats 5000 (new_UptimeMonitor 0)) = 100 \<and>
   totalChecks (getStats 5000 (new_UptimeMonitor 0)) = 0"
proof -
  have "new_UptimeMonitor 0 = (new_UptimeMonitor 0)\<lparr>checks := []\<rparr>"
    by (simp add: new_UptimeMonitor_def)
  with getStats_empty_ring [of 5000 "new_UptimeMonitor 0"] show ?thesis by simp
qed

section \<open>Error logger (rotating file sink)\<close>

subsection \<open>The log directory\<close>

text \<open>
  A log file as the logger sees it: the size reported by \<^verbatim>\<open>stat\<close>, and the text that
  \<^verbatim>\<open>readFile\<close> yields (\<open>None\<close> for a file that cannot be read).
\<close>

record logfile =
  bytes :: nat
  content :: "string option"

text \<open>
  A directory lists its entries in the order \<^verbatim>\<open>readdir\<close> reports them; names are distinct.
  The path \<^verbatim>\<open>logs/\<close> is absent, occupied by something that is not a directory, or a
  directory.
\<close>

type_synonym directory = "(string \<times> logfile) list"

datatype logs_path = Absent | NotADirectory | Dir directory

datatype fs_error = ENOENT | ENOTDIR | EEXIST | EACCES | EPERM | EISDIR | EBUSY

definition mkdir_recursive :: "logs_path \<Rightarrow> fs_error + logs_path" where
  "mkdir_recursive p =
     (case p of Absent \<Rightarrow> Inr (Dir []) | NotADirectory \<Rightarrow> Inl EEXIST | Dir d \<Rightarrow> Inr (Dir d))"

definition readdir :: "logs_path \<Rightarrow> fs_error + string list" where
  "readdir p =
     (case p of Absent \<Rightarrow> Inl ENOENT | NotADirectory \<Rightarrow> Inl ENOTDIR | Dir d \<Rightarrow> Inr (map fst d))"






definition readFile :: "directory \<Rightarrow> string \<Rightarrow> fs_error + string" where
  "readFile d file =
     (case map_of d file of
        None \<Rightarrow> Inl ENOENT
      | Some f \<Rightarrow> (case content f of None \<Rightarrow> Inl EACCES | Some text \<Rightarrow> Inr text))"

subsection \<open>Rotation\<close>



text \<open>The filter \<^verbatim>\<open>file.startsWith('error-') && file.endsWith('.log')\<close>.\<close>

definition is_log_name :: "string \<Rightarrow> bool" where
  "is_log_name file \<longleftrightarrow> startsWith file ''error-'' \<and> endsWith file ''.log''"







subsection \<open>Reading the logs back\<close>

text \<open>\<^verbatim>\<open>s.trim()\<close> removes white space (here: space, tab, LF, VT, FF, CR) at both ends.\<close>

definition is_space :: "char \<Rightarrow> bool" where
  "is_space c \<longleftrightarrow> c \<in> set [CHR '' '', CHR 0x09, CHR 0x0A, CHR 0x0B, CHR 0x0C, CHR 0x0D]"

definition trim :: "string \<Rightarrow> string" where
  "trim s = rev (dropWhile is_space (rev (dropWhile is_space s)))"

text \<open>\<^verbatim>\<open>s.split('\n')\<close>: the pieces between line feeds, at least one piece.\<close>

fun split_lines :: "string \<Rightarrow> string list" where
  "split_lines [] = [[]]"
| "split_lines (c # cs) =
     (if c = CHR 0x0A then [] # split_lines cs
      else (case split_lines cs of
              [] \<Rightarrow> [[c]]
            | line # lines \<Rightarrow> (c # line) # lines))"

text \<open>
  The inner loop of \<^verbatim>\<open>getRecentLogs\<close> over the lines of one file.  \<open>parse\<close> stands for the
  body of the innermost \<^verbatim>\<open>try\<close> (\<^verbatim>\<open>JSON.parse\<close> and the construction of the record): the
  record, or \<open>None\<close> when it throws.
\<close>

fun collect_lines :: "(string \<Rightarrow> 'r option) \<Rightarrow> int \<Rightarrow> string list \<Rightarrow> 'r list \<Rightarrow> 'r list" where
  "collect_lines parse limit [] logs = logs"
| "collect_lines parse limit (line # lines) logs =
     (if limit \<le> int (length logs) then logs
      else if trim line = [] then collect_lines parse limit lines logs
      else (case parse line of
              None \<Rightarrow> collect_lines parse limit lines logs
            | Some entry \<Rightarrow> collect_lines parse limit lines (logs @ [entry])))"

text \<open>The outer loop over the log files; a file whose read is rejected is skipped.\<close>

fun collect_files ::
  "(string \<Rightarrow> 'r option) \<Rightarrow> int \<Rightarrow> directory \<Rightarrow> string list \<Rightarrow> 'r list \<Rightarrow> 'r list" where
  "collect_files parse limit d [] logs = logs"
| "collect_files parse limit d (file # files) logs =
     (if limit \<le> int (length logs) then logs
      else (case readFile d file of
              Inl error \<Rightarrow> collect_files parse limit d files logs
            | Inr text \<Rightarrow>
                collect_files parse limit d files
                  (collect_lines parse limit (rev (split_lines (trim text))) logs)))"

text \<open>
  \<^verbatim>\<open>ServerErrorLogger.getRecentLogs(limit)\<close>: the records and the state of \<^verbatim>\<open>logs/\<close>
  afterwards (\<^verbatim>\<open>mkdir\<close> creates a missing directory).  A rejection of \<^verbatim>\<open>mkdir\<close> or
  \<^verbatim>\<open>readdir\<close> ends in the outer \<^verbatim>\<open>catch\<close>, which returns the empty list.
\<close>

definition ServerErrorLogger_getRecentLogs ::
  "(string \<Rightarrow> 'r option) \<Rightarrow> int \<Rightarrow> logs_path \<Rightarrow> 'r list \<times> logs_path" where
  "ServerErrorLogger_getRecentLogs parse limit p =
     (case mkdir_recursive p of
        Inl error \<Rightarrow> ([], p)
      | Inr p' \<Rightarrow>
          (case readdir p' of
             Inl error \<Rightarrow> ([], p')
           | Inr files \<Rightarrow>
               (case p' of
                  Dir d \<Rightarrow>
                    (let logFiles = rev (sort (filter is_log_name files))
                     in (collect_files parse limit d logFiles [], p'))
                | _ \<Rightarrow> ([], p'))))"

text \<open>
  \<^verbatim>\<open>ErrorLogger.getRecentLogs(limit)\<close>, in the other logger module.  Its body is that of the
  server logger with \<^verbatim>\<open>fs.readdir\<close> and \<^verbatim>\<open>fs.readFile\<close>, but its first statement after the
  dynamic import, \<^verbatim>\<open>await mkdir(this.logDir, { recursive: true })\<close>, names \<^verbatim>\<open>mkdir\<close>
  without the \<^verbatim>\<open>fs.\<close> prefix.  The names bound where that statement stands are the
  module's import (\<^verbatim>\<open>join\<close>), its declarations, and the method's \<^verbatim>\<open>limit\<close> and \<^verbatim>\<open>fs\<close>;
  \<^verbatim>\<open>mkdir\<close> is bound only inside \<^verbatim>\<open>logToFile\<close>, and the platform has no global of that
  name.  Evaluating an unbound name throws a \<^verbatim>\<open>ReferenceError\<close>, inside the outer \<^verbatim>\<open>try\<close>.
\<close>

definition ErrorLogger_bindings :: "string list" where
  "ErrorLogger_bindings =
     [''join'', ''ErrorLogger'', ''errorLogger'', ''logErrorToFile'', ''logWarningToFile'',
      ''logInfoToFile'', ''limit'', ''fs'']"

datatype js_error = ReferenceError string | FsError fs_error

definition resolve :: "string list \<Rightarrow> string \<Rightarrow> js_error + unit" where
  "resolve bindings x = (if x \<in> set bindings then Inr () else Inl (ReferenceError x))"

definition ErrorLogger_getRecentLogs ::
  "(string \<Rightarrow> 'r option) \<Rightarrow> int \<Rightarrow> logs_path \<Rightarrow> 'r list \<times> logs_path" where
  "ErrorLogger_getRecentLogs parse limit p =
     (case resolve ErrorLogger_bindings ''mkdir'' of
        Inl error \<Rightarrow> ([], p)
      | Inr bound \<Rightarrow> ServerErrorLogger_getRecentLogs parse limit p)"

text \<open>
  The records a directory holds, newest first, in the words of the specification: the
  log files in descending order of their names; within a file the lines in reverse
  order; blank lines, lines that do not parse and unreadable files contribute nothing.
\<close>

definition records_of_file :: "(string \<Rightarrow> 'r option) \<Rightarrow> directory \<Rightarrow> string \<Rightarrow> 'r list" where
  "records_of_file parse d file =
     (case readFile d file of
        Inl error \<Rightarrow> []
      | Inr text \<Rightarrow>
          List.map_filter parse (filter (\<lambda>line. trim line \<noteq> []) (rev (split_lines (trim text)))))"

definition newest_first :: "(string \<Rightarrow> 'r option) \<Rightarrow> directory \<Rightarrow> 'r list" where
  "newest_first parse d =
     concat (map (records_of_file parse d) (rev (sort (filter is_log_name (map fst d)))))"

subsection \<open>Properties of rotation and of reading back\<close>







text \<open>The filter accepts exactly the names of the shape \<^verbatim>\<open>error-*.log\<close>.\<close>

lemma is_log_name_pattern:
  "is_log_name f \<longleftrightarrow> (\<exists>m. f = ''error-'' @ m @ ''.log'')"
proof
  assume "\<exists>m. f = ''error-'' @ m @ ''.log''"
  then show "is_log_name f"
    by (auto simp: is_log_name_def endsWith_def)
next
  assume a: "is_log_name f"
  then obtain t where t: "f = ''error-'' @ t"
    unfolding is_log_name_def startsWith_iff by blast
  from a have "startsWith (rev f) (rev ''.log'')"
    by (simp add: is_log_name_def endsWith_def)
  then obtain u where "rev f = rev ''.log'' @ u" unfolding startsWith_iff by blast
  then have "rev (rev f) = rev (rev ''.log'' @ u)" by simp
  then have u: "f = rev u @ ''.log''" by simp
  show "\<exists>m. f = ''error-'' @ m @ ''.log''"
  proof (cases "4 \<le> length t")
    case True
    have "drop (length f - 4) f = ''.log''"
      by (subst (1 2) u) simp
    moreover have "drop (length f - 4) f = drop (length t - 4) t"
    proof -
      have "length f - 4 = length t + 2" by (subst t) simp
      moreover have "drop (length t + 2) (''error-'' @ t) =
          drop (length t + 2) ''error-'' @ drop (length t + 2 - length ''error-'') t"
        by (rule drop_append)
      moreover have "drop (length t + 2) ''error-'' = []" using True by simp
      moreover have "length t + 2 - length ''error-'' = length t - 4" using True by simp
      ultimately show ?thesis using t by simp
    qed
    ultimately have "drop (length t - 4) t = ''.log''" by simp
    then have "take (length t - 4) t @ ''.log'' = t"
      using append_take_drop_id [of "length t - 4" t] by simp
    then have "f = ''error-'' @ take (length t - 4) t @ ''.log''"
      using t by simp
    then show ?thesis by blast
  next
    case False
    then have "length t < 4" by simp
    then consider "t = []" | a where "t = [a]" | a b where "t = [a, b]" | a b c where "t = [a, b, c]"
      by (cases t; cases "tl t"; cases "tl (tl t)"; cases "tl (tl (tl t))") auto
    then have "\<not> endsWith (''error-'' @ t) ''.log''"
      by cases (auto simp: endsWith_def)
    with a t show ?thesis by (simp add: is_log_name_def)
  qed
qed

















lemma collect_lines_take:
  "collect_lines parse limit lines logs =
     logs @ take (nat limit - length logs)
              (List.map_filter parse (filter (\<lambda>line. trim line \<noteq> []) lines))"
proof (induction lines arbitrary: logs)
  case Nil
  show ?case by (simp add: map_filter_simps)
next
  case (Cons line lines)
  show ?case
  proof (cases "limit \<le> int (length logs)")
    case True
    then have "nat limit - length logs = 0" by simp
    with True show ?thesis by simp
  next
    case False
    then have pos: "nat limit - length logs = Suc (nat limit - Suc (length logs))" by simp
    show ?thesis
    proof (cases "trim line = []")
      case True
      with False Cons.IH show ?thesis by simp
    next
      case nonblank: False
      show ?thesis
      proof (cases "parse line")
        case None
        with False nonblank Cons.IH show ?thesis by (simp add: map_filter_simps)
      next
        case (Some entry)
        with False nonblank Cons.IH [of "logs @ [entry]"] pos show ?thesis
          by (simp add: map_filter_simps)
      qed
    qed
  qed
qed

lemma collect_files_take:
  "collect_files parse limit d files logs =
     logs @ take (nat limit - length logs) (concat (map (records_of_file parse d) files))"
proof (induction files arbitrary: logs)
  case Nil
  show ?case by simp
next
  case (Cons f fs)
  show ?case
  proof (cases "limit \<le> int (length logs)")
    case True
    then have "nat limit - length logs = 0" by simp
    with True show ?thesis by simp
  next
    case False
    show ?thesis
    proof (cases "readFile d f")
      case (Inl error)
      with False Cons.IH show ?thesis by (simp add: records_of_file_def)
    next
      case (Inr body)
      let ?valid = "List.map_filter parse
          (filter (\<lambda>line. trim line \<noteq> []) (rev (split_lines (trim body))))"
      let ?k = "nat limit - length logs"
      have rec: "records_of_file parse d f = ?valid"
        using Inr by (simp add: records_of_file_def)
      have "collect_files parse limit d (f # fs) logs =
            collect_files parse limit d fs (logs @ take ?k ?valid)"
        using False Inr by (simp add: collect_lines_take)
      also have "\<dots> = (logs @ take ?k ?valid) @
            take (nat limit - length (logs @ take ?k ?valid))
              (concat (map (records_of_file parse d) fs))"
        by (rule Cons.IH)
      also have "nat limit - length (logs @ take ?k ?valid) = ?k - length ?valid"
        by (simp add: min_def)
      finally show ?thesis by (simp add: rec)
    qed
  qed
qed

text \<open>
  The server logger reads back exactly the first \<open>limit\<close> records of the directory, newest
  first, and nothing when \<^verbatim>\<open>logs/\<close> cannot be made a directory.
\<close>

lemma ServerErrorLogger_getRecentLogs_newest_first:
  "fst (ServerErrorLogger_getRecentLogs parse limit p) =
     (case p of Dir d \<Rightarrow> take (nat limit) (newest_first parse d) | _ \<Rightarrow> [])"
  by (cases p)
     (simp_all add: ServerErrorLogger_getRecentLogs_def mkdir_recursive_def readdir_def
       collect_files_take newest_first_def records_of_file_def)

lemma ServerErrorLogger_getRecentLogs_bounded:
  "length (fst (ServerErrorLogger_getRecentLogs parse limit p)) \<le> nat limit"
  by (cases p) (simp_all add: ServerErrorLogger_getRecentLogs_newest_first)

lemma ErrorLogger_getRecentLogs_empty:
  "ErrorLogger_getRecentLogs parse limit p = ([], p)"
  by (simp add: ErrorLogger_getRecentLogs_def resolve_def ErrorLogger_bindings_def)

definition json_line :: "string \<Rightarrow> string" where
  "json_line v = ''{'' @ [CHR 0x22] @ ''message'' @ [CHR 0x22] @ '':'' @ v @ ''}''"

definition parse_json_line :: "string \<Rightarrow> string option" where
  "parse_json_line line =
     (if startsWith line (''{'' @ [CHR 0x22]) \<and> endsWith line ''}'' then Some line else None)"

definition two_days :: directory where
  "two_days =
     [(''error-2024-05-01.log'',
         \<lparr>bytes = 34, content = Some (json_line ''1'' @ [CHR 0x0A] @ json_line ''2'' @ [CHR 0x0A])\<rparr>),
      (''notes.txt'', \<lparr>bytes = 5, content = Some ''hello''\<rparr>),
      (''error-2024-05-02.log'',
         \<lparr>bytes = 26, content = Some (''not json'' @ [CHR 0x0A] @ json_line ''3'' @ [CHR 0x0A])\<rparr>)]"

text \<open>
  Claim C7, at a directory with two log files holding three records and one line that
  does not parse: \<^verbatim>\<open>ServerErrorLogger.getRecentLogs(50)\<close> returns the three records newest
  first, as the claim says, whereas \<^verbatim>\<open>ErrorLogger.getRecentLogs(50)\<close> returns nothing: the
  unbound \<^verbatim>\<open>mkdir\<close> sends every call to the outer \<^verbatim>\<open>catch\<close>.
\<close>

theorem ErrorLogger_getRecentLogs_returns_nothing:
  "fst (ErrorLogger_getRecentLogs parse_json_line 50 (Dir two_days)) = [] \<and>
   fst (ServerErrorLogger_getRecentLogs parse_json_line 50 (Dir two_days)) =
     [json_line ''3'', json_line ''2'', json_line ''1''] \<and>
   take (nat 50) (newest_first parse_json_line two_days) =
     [json_line ''3'', json_line ''2'', json_line ''1'']"
proof -
  have spec: "newest_first parse_json_line two_days = [json_line ''3'', json_line ''2'', json_line ''1'']"
    by (simp add: newest_first_def records_of_file_def readFile_def two_days_def
        is_log_name_def endsWith_def less_eq_char_def less_char_def trim_def is_space_def
        map_filter_simps parse_json_line_def json_line_def)
  have "fst (ServerErrorLogger_getRecentLogs parse_json_line 50 (Dir two_days)) =
      take (nat 50) (newest_first parse_json_line two_days)"
    by (simp add: ServerErrorLogger_getRecentLogs_newest_first)
  then show ?thesis
    by (simp add: spec ErrorLogger_getRecentLogs_empty)
qed

end
